theory Spec2Isabelle
  imports
    Main
    "HOL-Library.Word"
    "HOL-Library.Char_ord"
    "HOL-Library.List_Lexorder"
    "HOL-Library.Multiset"
begin

unbundle bit_operations_syntax

section \<open>JavaScript values and objects\<close>

text \<open>
  The request parameters handled by the SecureSheets clients are plain JavaScript objects
  whose property values are primitives. \<open>JNum n\<close> stands for a number that is a safe
  integer (\<open>Number.isSafeInteger\<close>: magnitude at most \<open>2^53 - 1\<close>), which \<open>String\<close>
  renders with all its decimal digits. Other numbers (fractions, \<open>NaN\<close>, infinities,
  integers of larger magnitude, which \<open>String\<close> rounds or prints with an exponent) are
  outside the model; \<open>inModel\<close> says that a value is inside it.
\<close>

datatype jsval = JUndefined | JNull | JBool bool | JNum int | JStr string

definition inModel :: "jsval \<Rightarrow> bool" where
  "inModel v = (case v of JNum n \<Rightarrow> \<bar>n\<bar> \<le> 2 ^ 53 - 1 | _ \<Rightarrow> True)"

text \<open>
  An object is the list of its own enumerable properties in enumeration order
  (\<open>Object.keys\<close>); a well-formed object has pairwise distinct keys.
\<close>

type_synonym jsobj = "(string \<times> jsval) list"

definition keys :: "jsobj \<Rightarrow> string list" where
  "keys obj = map fst obj"

definition wf_obj :: "jsobj \<Rightarrow> bool" where
  "wf_obj obj = distinct (keys obj)"

text \<open>Property read \<open>obj[key]\<close>: a missing property reads as \<open>undefined\<close>.\<close>

definition getProp :: "jsobj \<Rightarrow> string \<Rightarrow> jsval" where
  "getProp obj key = (case map_of obj key of None \<Rightarrow> JUndefined | Some v \<Rightarrow> v)"

text \<open>
  A key that is an array index (the canonical decimal string of an integer below
  \<open>2^32 - 1\<close>) is enumerated before every other key, in ascending numeric order; the
  other keys follow in insertion order.
\<close>

definition isDigit :: "char \<Rightarrow> bool" where
  "isDigit ch = (CHR ''0'' \<le> ch \<and> ch \<le> CHR ''9'')"

definition arrayIndex :: "string \<Rightarrow> nat option" where
  "arrayIndex key =
     (if key \<noteq> [] \<and> list_all isDigit key \<and> (key = ''0'' \<or> hd key \<noteq> CHR ''0'')
      then
        let n = foldl (\<lambda>a ch. 10 * a + (of_char ch - 48)) 0 key
        in if n < 4294967295 then Some n else None
      else None)"

fun replaceProp :: "jsobj \<Rightarrow> string \<Rightarrow> jsval \<Rightarrow> jsobj" where
  "replaceProp [] key v = []"
| "replaceProp ((k, w) # obj) key v =
     (if k = key then (k, v) # obj else (k, w) # replaceProp obj key v)"

fun insertIndex :: "nat \<Rightarrow> string \<Rightarrow> jsval \<Rightarrow> jsobj \<Rightarrow> jsobj" where
  "insertIndex n key v [] = [(key, v)]"
| "insertIndex n key v ((k, w) # obj) =
     (case arrayIndex k of
        Some m \<Rightarrow> if m < n then (k, w) # insertIndex n key v obj
                  else (key, v) # (k, w) # obj
      | None \<Rightarrow> (key, v) # (k, w) # obj)"

text \<open>
  Property write \<open>obj[key] = v\<close>: an existing property keeps its place; a new array
  index is put at its numeric position among the array indices, any other new key is
  appended.
\<close>

definition assign :: "jsobj \<Rightarrow> string \<Rightarrow> jsval \<Rightarrow> jsobj" where
  "assign obj key v =
     (if key \<in> set (keys obj) then replaceProp obj key v
      else case arrayIndex key of
        Some n \<Rightarrow> insertIndex n key v obj
      | None \<Rightarrow> obj @ [(key, v)])"

text \<open>Truthiness, as used by \<open>!x\<close>, \<open>x || y\<close> and \<open>if (x)\<close>.\<close>

fun truthy :: "jsval \<Rightarrow> bool" where
  "truthy JUndefined = False"
| "truthy JNull = False"
| "truthy (JBool b) = b"
| "truthy (JNum n) = (n \<noteq> 0)"
| "truthy (JStr s) = (s \<noteq> [])"

definition digit :: "nat \<Rightarrow> char" where
  "digit d = char_of (48 + d)"

fun dec :: "nat \<Rightarrow> string" where
  "dec n = (if n < 10 then [digit n] else dec (n div 10) @ [digit (n mod 10)])"

text \<open>
  \<open>String(v)\<close>, the coercion also performed by template literals and by \<open>+\<close>, for the
  values inside the model.
\<close>

fun ToString :: "jsval \<Rightarrow> string" where
  "ToString JUndefined = ''undefined''"
| "ToString JNull = ''null''"
| "ToString (JBool b) = (if b then ''true'' else ''false'')"
| "ToString (JNum n) = (if n < 0 then CHR ''-'' # dec (nat (- n)) else dec (nat n))"
| "ToString (JStr s) = s"

text \<open>\<open>Array.prototype.join\<close> on a list of strings.\<close>

fun join :: "string \<Rightarrow> string list \<Rightarrow> string" where
  "join sep [] = []"
| "join sep [x] = x"
| "join sep (x # y # ys) = x @ sep @ join sep (y # ys)"

section \<open>Errors\<close>

text \<open>
  Every \<open>throw new Error(...)\<close> of the clients is one constructor; the rate-limit error
  carries the reset time \<open>requestWindow + oneHour\<close> that the message prints.
\<close>

datatype error =
    NotConfigured
  | InvalidParams
  | CryptoMissing
  | HmacArgsMissing
  | RateLimitExceeded int
  | NonceExhausted
  | RequestTimeout
  | HttpError nat string
  | ServerError jsobj
  | FetchFailed
  | BadJson
  | InvalidUrl
  | TypeError

section \<open>Signer\<close>

text \<open>
  \<open>CryptoJS.HmacSHA256\<close> followed by hex encoding is an external library: it is a
  parameter, absent (\<open>None\<close>) when \<open>typeof CryptoJS === 'undefined'\<close>.
\<close>

type_synonym crypto = "(string \<Rightarrow> string \<Rightarrow> string) option"

definition computeHMAC :: "crypto \<Rightarrow> string \<Rightarrow> string \<Rightarrow> error + string" where
  "computeHMAC cj message secret =
     (case cj of None \<Rightarrow> Inl CryptoMissing | Some h \<Rightarrow> Inr (h message secret))"

text \<open>Client v3.8.1 also rejects an empty message or secret.\<close>

definition computeHMAC_v381 :: "crypto \<Rightarrow> string \<Rightarrow> string \<Rightarrow> error + string" where
  "computeHMAC_v381 cj message secret =
     (case cj of
        None \<Rightarrow> Inl CryptoMissing
      | Some h \<Rightarrow> if message = [] \<or> secret = [] then Inl HmacArgsMissing
                  else Inr (h message secret))"

text \<open>
  \<open>Object.keys(params).sort()\<close>: the default comparison orders strings by their code
  units, the lexicographic order on character lists.
\<close>

definition sortedKeys :: "jsobj \<Rightarrow> string list" where
  "sortedKeys params = sort (keys params)"

text \<open>Client v1.0.0 and v3.8.1: \<open>key => `${key}=${params[key]}`\<close>.\<close>

definition createParts :: "jsobj \<Rightarrow> string list" where
  "createParts params =
     map (\<lambda>key. key @ ''='' @ ToString (getProp params key)) (sortedKeys params)"

definition createSignatureString :: "jsobj \<Rightarrow> string" where
  "createSignatureString params = join ''&'' (createParts params)"

definition createSignature :: "crypto \<Rightarrow> jsobj \<Rightarrow> string \<Rightarrow> error + string" where
  "createSignature cj params secret = computeHMAC cj (createSignatureString params) secret"

text \<open>Client v3.8.1 first checks that \<open>params\<close> is an object (\<open>None\<close>: it is not).\<close>

definition createSignature_v381 :: "crypto \<Rightarrow> jsobj option \<Rightarrow> string \<Rightarrow> error + string" where
  "createSignature_v381 cj params secret =
     (case params of
        None \<Rightarrow> Inl InvalidParams
      | Some p \<Rightarrow> computeHMAC_v381 cj (createSignatureString p) secret)"

text \<open>Client v1.3.0: \<open>key => key + '=' + String(params[key] || '')\<close>.\<close>

definition orEmpty :: "jsval \<Rightarrow> jsval" where
  "orEmpty v = (if truthy v then v else JStr [])"

definition generateParts :: "jsobj \<Rightarrow> string list" where
  "generateParts params =
     map (\<lambda>key. key @ ''='' @ ToString (orEmpty (getProp params key))) (sortedKeys params)"

definition generateSignatureString :: "jsobj \<Rightarrow> string" where
  "generateSignatureString params = join ''&'' (generateParts params)"

text \<open>The secret is read from \<open>SecureSheets.config.hmacSecret\<close>.\<close>

definition generateSignature :: "crypto \<Rightarrow> string \<Rightarrow> jsobj \<Rightarrow> error + string" where
  "generateSignature cj hmacSecret params =
     computeHMAC cj (generateSignatureString params) hmacSecret"

section \<open>Client state\<close>

text \<open>
  \<open>Date.now()\<close> is the number of milliseconds elapsed since the epoch, a natural number.
  Every call of \<open>Date.now()\<close> is a separate reading and a separate argument of the model.
\<close>

type_synonym time = nat

text \<open>
  The configuration object, with the fields of all client versions. \<open>scriptUrl\<close>,
  \<open>apiToken\<close> and \<open>hmacSecret\<close> are \<open>null\<close> (\<open>None\<close>) or a string.
\<close>

record config =
  scriptUrl :: "string option"
  apiToken :: "string option"
  hmacSecret :: "string option"
  origin :: string
  enableCSRF :: bool
  enableNonce :: bool
  rateLimitEnabled :: bool
  maxRequests :: int
  enableCache :: bool
  cacheTimeout :: int

record 'v entry =
  data :: 'v
  expires :: int

text \<open>
  The \<open>SecureSheets\<close> singleton: configuration, response cache (\<open>Map\<close>), rate window,
  CSRF token, and the nonce \<open>Set\<close> as the list of its elements in insertion order.
  \<open>rateLimitRemaining\<close> is the last \<open>X-RateLimit-Remaining\<close> header seen
  (\<open>serverInfo.limits.remaining\<close>). The store \<open>heap\<close> holds the objects that callers
  pass by reference, \<open>nextFree\<close> is the next unused reference, and \<open>sent\<close> lists the
  requests issued with \<open>fetch\<close>, oldest first: a \<open>GET\<close> with its base URL, query
  parameters and headers, a \<open>POST\<close> with its URL, headers and the object serialised
  as the body.
\<close>

datatype request =
    GET string "(string \<times> string) list" jsobj
  | POST string jsobj jsobj

record 'v client =
  config :: config
  cache :: "string \<rightharpoonup> 'v entry"
  requestCount :: int
  requestWindow :: time
  csrfToken :: "string option"
  csrfExpiry :: "time option"
  usedNonces :: "string list"
  rateLimitRemaining :: "string option"
  heap :: "nat \<Rightarrow> jsobj"
  nextFree :: nat
  sent :: "request list"

text \<open>\<open>!x\<close> for a value that is \<open>null\<close> or a string.\<close>

definition present :: "string option \<Rightarrow> bool" where
  "present x = (case x of None \<Rightarrow> False | Some s \<Rightarrow> s \<noteq> [])"

definition isConfigured :: "'v client \<Rightarrow> bool" where
  "isConfigured c =
     (present (scriptUrl (config c)) \<and> present (apiToken (config c))
      \<and> present (hmacSecret (config c)))"

text \<open>
  The state at load time \<open>t\<close>. Clients v1.2.0 and v1.3.0 start from empty strings, client
  v1.0.0 from \<open>null\<close> and with \<open>enableCache\<close>; a field that a version does not have
  is never read by its functions.
\<close>

definition initial :: "time \<Rightarrow> 'v client" where
  "initial t =
     \<lparr>config = \<lparr>scriptUrl = Some [], apiToken = Some [], hmacSecret = Some [], origin = [],
                 enableCSRF = True, enableNonce = True, rateLimitEnabled = True,
                 maxRequests = 100, enableCache = True, cacheTimeout = 300000\<rparr>,
      cache = Map.empty, requestCount = 0, requestWindow = t, csrfToken = None,
      csrfExpiry = None, usedNonces = [], rateLimitRemaining = None,
      heap = (\<lambda>r. []), nextFree = 0, sent = []\<rparr>"

definition initial_v100 :: "time \<Rightarrow> jsobj client" where
  "initial_v100 t =
     (initial t)\<lparr>config := (config (initial t :: jsobj client))
        \<lparr>scriptUrl := None, apiToken := None, hmacSecret := None\<rparr>\<rparr>"

section \<open>Rate limiter\<close>

definition oneHour :: int where
  "oneHour = 60 * 60 * 1000"

text \<open>
  \<open>checkRateLimit\<close> is the same in every version. The window reset is kept when the call
  then throws.
\<close>

definition checkRateLimit :: "time \<Rightarrow> 'v client \<Rightarrow> (error + bool) \<times> 'v client" where
  "checkRateLimit now c =
     (if \<not> rateLimitEnabled (config c) then (Inr True, c)
      else
        let c1 = (if int now - int (requestWindow c) > oneHour
                  then c\<lparr>requestCount := 0, requestWindow := now\<rparr> else c)
        in if requestCount c1 \<ge> maxRequests (config c1)
           then (Inl (RateLimitExceeded (int (requestWindow c1) + oneHour)), c1)
           else (Inr True, c1\<lparr>requestCount := requestCount c1 + 1\<rparr>))"

text \<open>A run of calls, one clock reading each; the results are listed in call order.\<close>

fun checkMany :: "time list \<Rightarrow> 'v client \<Rightarrow> (error + bool) list \<times> 'v client" where
  "checkMany [] c = ([], c)"
| "checkMany (t # ts) c =
     (let (r, c1) = checkRateLimit t c; (rs, c2) = checkMany ts c1 in (r # rs, c2))"

definition resetRateLimit :: "time \<Rightarrow> 'v client \<Rightarrow> 'v client" where
  "resetRateLimit now c = c\<lparr>requestCount := 0, requestWindow := now\<rparr>"

section \<open>Response cache\<close>

text \<open>
  Client v1.0.0. A hit returns \<open>{ ...cached.data, fromCache: true }\<close>; \<open>None\<close> is the
  returned \<open>null\<close>.
\<close>

definition getCached_v100 :: "time \<Rightarrow> string \<Rightarrow> jsobj client \<Rightarrow> jsobj option \<times> jsobj client" where
  "getCached_v100 now key c =
     (if \<not> enableCache (config c) then (None, c)
      else case cache c key of
        None \<Rightarrow> (None, c)
      | Some cached \<Rightarrow>
          if int now > expires cached then (None, c\<lparr>cache := (cache c)(key := None)\<rparr>)
          else (Some (assign (data cached) ''fromCache'' (JBool True)), c))"

text \<open>\<open>setCached(key, data, ttl = 300)\<close>: an omitted \<open>ttl\<close> (\<open>None\<close>) is 300 seconds.\<close>

definition setCached_v100 :: "time \<Rightarrow> string \<Rightarrow> jsobj \<Rightarrow> int option \<Rightarrow> jsobj client \<Rightarrow> jsobj client" where
  "setCached_v100 now key d ttl c =
     (if \<not> enableCache (config c) then c
      else
        let ttl = (case ttl of None \<Rightarrow> 300 | Some t \<Rightarrow> t)
        in c\<lparr>cache := (cache c)(key \<mapsto> \<lparr>data = d, expires = int now + ttl * 1000\<rparr>)\<rparr>)"

text \<open>Clients v1.2.0 and v1.3.0: the lifetime is \<open>config.cacheTimeout\<close> milliseconds.\<close>

definition getCached :: "time \<Rightarrow> string \<Rightarrow> 'v client \<Rightarrow> 'v option \<times> 'v client" where
  "getCached now key c =
     (case cache c key of
        None \<Rightarrow> (None, c)
      | Some cached \<Rightarrow>
          if int now > expires cached then (None, c\<lparr>cache := (cache c)(key := None)\<rparr>)
          else (Some (data cached), c))"

definition setCached :: "time \<Rightarrow> string \<Rightarrow> 'v \<Rightarrow> 'v client \<Rightarrow> 'v client" where
  "setCached now key d c =
     c\<lparr>cache := (cache c)(key \<mapsto> \<lparr>data = d, expires = int now + cacheTimeout (config c)\<rparr>)\<rparr>"

text \<open>\<open>clearCache(key)\<close>: a missing or empty key clears the whole cache.\<close>

definition clearCache :: "string option \<Rightarrow> 'v client \<Rightarrow> 'v client" where
  "clearCache key c =
     (case key of
        None \<Rightarrow> c\<lparr>cache := Map.empty\<rparr>
      | Some k \<Rightarrow> if k = [] then c\<lparr>cache := Map.empty\<rparr> else c\<lparr>cache := (cache c)(k := None)\<rparr>)"

text \<open>A run of reads, each with its clock reading and key; the state after the last.\<close>

fun getMany :: "(time \<times> string) list \<Rightarrow> 'v client \<Rightarrow> 'v client" where
  "getMany [] c = c"
| "getMany ((t, k) # rs) c = getMany rs (snd (getCached t k c))"

fun getMany_v100 :: "(time \<times> string) list \<Rightarrow> jsobj client \<Rightarrow> jsobj client" where
  "getMany_v100 [] c = c"
| "getMany_v100 ((t, k) # rs) c = getMany_v100 rs (snd (getCached_v100 t k c))"

section \<open>Nonce generator\<close>

definition maxAttempts :: nat where
  "maxAttempts = 10"

text \<open>
  The candidate \<open>Date.now().toString(36) + Math.random().toString(36).substr(2, 9)\<close>
  depends on the clock and on the random source: \<open>cand i\<close> is the candidate drawn in the
  iteration entered with \<open>attempts = i\<close>. The \<open>do ... while\<close> loop returns the last
  candidate and the number of attempts.
\<close>

function nonceLoop :: "(nat \<Rightarrow> string) \<Rightarrow> string list \<Rightarrow> nat \<Rightarrow> string \<times> nat" where
  "nonceLoop cand used attempts =
     (let nonce = cand attempts; attempts1 = attempts + 1
      in if nonce \<in> set used \<and> attempts1 < maxAttempts
         then nonceLoop cand used attempts1 else (nonce, attempts1))"
  by pat_completeness auto
termination
  by (relation "measure (\<lambda>(cand, used, attempts). maxAttempts - attempts)") auto

text \<open>\<open>Set.prototype.add\<close> and \<open>delete\<close> on the insertion-ordered element list.\<close>

definition setAdd :: "string list \<Rightarrow> string \<Rightarrow> string list" where
  "setAdd xs x = (if x \<in> set xs then xs else xs @ [x])"

text \<open>
  \<open>usedNonces.delete(usedNonces.values().next().value)\<close>: the first element in
  insertion order is removed.
\<close>

definition deleteFirst :: "string list \<Rightarrow> string list" where
  "deleteFirst xs = (case xs of [] \<Rightarrow> [] | firstNonce # _ \<Rightarrow> remove1 firstNonce xs)"

definition generateNonce :: "(nat \<Rightarrow> string) \<Rightarrow> 'v client \<Rightarrow> (error + string option) \<times> 'v client" where
  "generateNonce cand c =
     (if \<not> enableNonce (config c) then (Inr None, c)
      else
        let (nonce, attempts) = nonceLoop cand (usedNonces c) 0
        in if attempts \<ge> maxAttempts then (Inl NonceExhausted, c)
           else
             let used1 = setAdd (usedNonces c) nonce;
                 used2 = (if length used1 > 1000 then deleteFirst used1 else used1)
             in (Inr (Some nonce), c\<lparr>usedNonces := used2\<rparr>))"

definition clearNonces :: "'v client \<Rightarrow> 'v client" where
  "clearNonces c = c\<lparr>usedNonces := []\<rparr>"

text \<open>A run of calls, each with its own candidate source; results in call order.\<close>

fun generateMany :: "(nat \<Rightarrow> string) list \<Rightarrow> 'v client \<Rightarrow> (error + string option) list \<times> 'v client" where
  "generateMany [] c = ([], c)"
| "generateMany (cand # cands) c =
     (let (r, c1) = generateNonce cand c; (rs, c2) = generateMany cands c1 in (r # rs, c2))"

section \<open>CSRF token manager\<close>

text \<open>
  \<open>'csrf_' + Date.now() + '_' + Math.random().toString(36).substr(2, 16)\<close>, with the
  random characters \<open>rnd\<close> as an input.
\<close>

definition mintCSRF :: "time \<Rightarrow> string \<Rightarrow> string" where
  "mintCSRF t rnd = ''csrf_'' @ dec t @ ''_'' @ rnd"

text \<open>
  \<open>now\<close> is the reading taken on entry, \<open>now2\<close> the one inside the token. The stored
  token and expiry are tested for truthiness before the comparison.
\<close>

definition getCSRFToken :: "time \<Rightarrow> time \<Rightarrow> string \<Rightarrow> 'v client \<Rightarrow> string option \<times> 'v client" where
  "getCSRFToken now now2 rnd c =
     (if \<not> enableCSRF (config c) then (None, c)
      else if present (csrfToken c)
              \<and> (case csrfExpiry c of None \<Rightarrow> False | Some e \<Rightarrow> e \<noteq> 0 \<and> now < e)
      then (csrfToken c, c)
      else
        let token = mintCSRF now2 rnd
        in (Some token, c\<lparr>csrfToken := Some token, csrfExpiry := Some (now + 30 * 60 * 1000)\<rparr>))"



text \<open>
  Client v3.8.1 has no token cache: \<open>generateCSRFToken\<close> builds a token from the
  current time for every POST request.
\<close>

definition generateCSRFToken_v381 :: "crypto \<Rightarrow> time \<Rightarrow> string \<Rightarrow> string \<Rightarrow> error + string" where
  "generateCSRFToken_v381 cj timestamp orig secret =
     (case computeHMAC_v381 cj (dec timestamp @ '':'' @ orig) secret of
        Inl e \<Rightarrow> Inl e
      | Inr signature \<Rightarrow> Inr (dec timestamp @ '':'' @ signature))"

section \<open>Webhook signature verification\<close>

text \<open>
  \<open>s.charCodeAt(i)\<close> as the operand of a bitwise operator: a 32-bit integer, with the
  \<open>NaN\<close> of an index out of range read as 0.
\<close>

definition charCodeAt :: "string \<Rightarrow> nat \<Rightarrow> 32 word" where
  "charCodeAt s i = (if i < length s then of_nat (of_char (s ! i)) else 0)"

function compareLoop :: "string \<Rightarrow> string \<Rightarrow> nat \<Rightarrow> 32 word \<Rightarrow> 32 word" where
  "compareLoop signature expectedSignature i result =
     (if i < length signature
      then compareLoop signature expectedSignature (i + 1)
             (result OR (charCodeAt signature i XOR charCodeAt expectedSignature i))
      else result)"
  by pat_completeness auto
termination
  by (relation "measure (\<lambda>(signature, expectedSignature, i, result). length signature - i)") auto

text \<open>
  The arguments are strings or missing (\<open>None\<close>). An exception of \<open>computeHMAC\<close> is
  caught and answered with \<open>false\<close>.
\<close>

definition verifyWebhookSignature :: "crypto \<Rightarrow> string option \<Rightarrow> string option \<Rightarrow> string option \<Rightarrow> bool" where
  "verifyWebhookSignature cj payload signature secret =
     (case (payload, signature, secret) of
        (Some p, Some sg, Some k) \<Rightarrow>
          if p = [] \<or> sg = [] \<or> k = [] then False
          else (case computeHMAC cj p k of
                  Inl e \<Rightarrow> False
                | Inr expectedSignature \<Rightarrow>
                    if length sg \<noteq> length expectedSignature then False
                    else compareLoop sg expectedSignature 0 0 = 0)
      | _ \<Rightarrow> False)"

section \<open>Request orchestrators\<close>

text \<open>
  An argument is an object passed by reference, a non-object such as \<open>null\<close>, or
  omitted. \<open>useCache\<close> is false only for \<open>options.useCache === false\<close>.
\<close>

datatype arg = Omitted | NotObject | Ref nat

record options =
  useCache :: bool
  cacheTTL :: "int option"
  headers :: jsobj

text \<open>
  The outcome of \<open>fetch\<close>: aborted by the timeout, rejected, or resolved with a
  response whose body parses as JSON (\<open>Some\<close>) or does not.
\<close>

record response =
  ok :: bool
  status :: nat
  statusText :: string
  json :: "jsobj option"
  rateLimitHeader :: "string option"

datatype fetched = Aborted | Rejected | Resolved response

text \<open>
  What a call reads from its environment: the crypto library, \<open>JSON.stringify\<close> (of an
  object, or of \<open>null\<close>), \<open>Date.prototype.toISOString\<close>, the validity test of
  \<open>new URL\<close>, \<open>window.location.origin\<close>, one clock reading per \<open>Date.now()\<close> or
  \<open>new Date()\<close> in program order, the nonce candidates, the random part of a CSRF
  token, and the outcome of \<open>fetch\<close>.
\<close>

record env =
  cryptoJS :: crypto
  stringify :: "jsobj option \<Rightarrow> string"
  toISOString :: "time \<Rightarrow> string"
  validUrl :: "string \<Rightarrow> bool"
  locationOrigin :: string
  tRate :: time
  tStamp :: time
  tGet :: time
  tSet :: time
  tCsrf :: time
  tCsrf2 :: time
  csrfRnd :: string
  nonceCand :: "nat \<Rightarrow> string"
  fetchResult :: fetched

definition alloc :: "jsobj \<Rightarrow> 'v client \<Rightarrow> nat \<times> 'v client" where
  "alloc obj c =
     (nextFree c, c\<lparr>heap := (heap c)(nextFree c := obj), nextFree := nextFree c + 1\<rparr>)"

definition setProp :: "nat \<Rightarrow> string \<Rightarrow> jsval \<Rightarrow> 'v client \<Rightarrow> 'v client" where
  "setProp r key v c = c\<lparr>heap := (heap c)(r := assign (heap c r) key v)\<rparr>"

text \<open>Object spread \<open>{ ...base, ...extra }\<close>.\<close>

definition spread :: "jsobj \<Rightarrow> jsobj \<Rightarrow> jsobj" where
  "spread base extra = foldl (\<lambda>obj (k, v). assign obj k v) base extra"

definition doFetch :: "request \<Rightarrow> 'v client \<Rightarrow> 'v client" where
  "doFetch rq c = c\<lparr>sent := sent c @ [rq]\<rparr>"

text \<open>A configuration string as a value, and as the operand of \<open>+\<close>.\<close>

definition optVal :: "string option \<Rightarrow> jsval" where
  "optVal x = (case x of None \<Rightarrow> JNull | Some s \<Rightarrow> JStr s)"

definition optStr :: "string option \<Rightarrow> string" where
  "optStr x = ToString (optVal x)"

text \<open>Sequencing of calls that may throw: an exception skips the rest.\<close>

definition andThen ::
  "(error + 'a) \<times> 's \<Rightarrow> ('a \<Rightarrow> 's \<Rightarrow> (error + 'b) \<times> 's) \<Rightarrow> (error + 'b) \<times> 's" where
  "andThen m f = (case m of (Inl e, s) \<Rightarrow> (Inl e, s) | (Inr x, s) \<Rightarrow> f x s)"

text \<open>
  Each request function is written in three parts, in program order: the function itself
  up to the cache lookup, \<open>send\<close> from the signature to the call of \<open>fetch\<close>, and
  \<open>receive\<close> for what follows the \<open>await\<close>.
\<close>

subsection \<open>Client v1.0.0\<close>

definition urlParams :: "jsobj \<Rightarrow> (string \<times> string) list" where
  "urlParams obj = map (\<lambda>key. (key, ToString (getProp obj key))) (keys obj)"

text \<open>
  An \<open>AbortError\<close> is rethrown as the timeout error, any other exception as it is. A
  successful response is cached under the serialised parameters, signature included.
\<close>

definition receive_v100 :: "env \<Rightarrow> options \<Rightarrow> nat \<Rightarrow> jsobj client \<Rightarrow> (error + jsobj) \<times> jsobj client" where
  "receive_v100 ev opts requestParams c =
     (case fetchResult ev of
        Aborted \<Rightarrow> (Inl RequestTimeout, c)
      | Rejected \<Rightarrow> (Inl FetchFailed, c)
      | Resolved resp \<Rightarrow>
          if \<not> ok resp then (Inl (HttpError (status resp) (statusText resp)), c)
          else case json resp of
            None \<Rightarrow> (Inl BadJson, c)
          | Some d \<Rightarrow>
              (Inr d,
               if truthy (getProp d ''success'') \<and> useCache opts
               then setCached_v100 (tSet ev) (stringify ev (Some (heap c requestParams))) d
                      (cacheTTL opts) c
               else c))"

definition send_v100 :: "env \<Rightarrow> options \<Rightarrow> nat \<Rightarrow> jsobj client \<Rightarrow> (error + jsobj) \<times> jsobj client" where
  "send_v100 ev opts requestParams c =
     andThen (createSignature (cryptoJS ev) (heap c requestParams)
                (optStr (hmacSecret (config c))), c) (\<lambda>signature c.
       let c = setProp requestParams ''signature'' (JStr signature) c
       in if \<not> validUrl ev (optStr (scriptUrl (config c))) then (Inl InvalidUrl, c)
          else receive_v100 ev opts requestParams
                 (doFetch (GET (optStr (scriptUrl (config c)))
                            (urlParams (heap c requestParams))
                            (spread [(''Accept'', JStr ''application/json'')] (headers opts))) c))"

definition makeRequest_v100 :: "env \<Rightarrow> arg \<Rightarrow> options \<Rightarrow> jsobj client \<Rightarrow> (error + jsobj) \<times> jsobj client" where
  "makeRequest_v100 ev params opts c =
     (if \<not> isConfigured c then (Inl NotConfigured, c)
      else case params of
        Omitted \<Rightarrow> (Inl InvalidParams, c)
      | NotObject \<Rightarrow> (Inl InvalidParams, c)
      | Ref p \<Rightarrow>
          andThen (checkRateLimit (tRate ev) c) (\<lambda>_ c.
            let (requestParams, c) = alloc (spread [] (heap c p)) c;
                c = setProp requestParams ''token'' (optVal (apiToken (config c))) c;
                c = setProp requestParams ''timestamp'' (JStr (dec (tStamp ev))) c;
                c = setProp requestParams ''referrer'' (JStr (locationOrigin ev)) c;
                c = setProp requestParams ''origin'' (JStr (locationOrigin ev)) c;
                (cached, c) =
                  (if useCache opts \<and> \<not> truthy (getProp (heap c requestParams) ''action'')
                   then getCached_v100 (tGet ev) (stringify ev (Some (heap c requestParams))) c
                   else (None, c))
            in case cached of
                 Some d \<Rightarrow> (Inr d, c)
               | None \<Rightarrow> send_v100 ev opts requestParams c))"

subsection \<open>Clients v1.2.0 and v1.3.0: error responses\<close>

text \<open>
  \<open>handleErrorResponse\<close>: a body that does not parse gives the HTTP error, otherwise the
  error built by \<open>parseError\<close>, which carries the server's object.
\<close>

definition handleErrorResponse :: "response \<Rightarrow> error" where
  "handleErrorResponse resp =
     (case json resp of
        None \<Rightarrow> HttpError (status resp) (statusText resp)
      | Some errorData \<Rightarrow> ServerError errorData)"

text \<open>The bookkeeping of \<open>X-RateLimit-Remaining\<close> in client v1.2.0.\<close>

definition noteRateLimit :: "response \<Rightarrow> 'v client \<Rightarrow> 'v client" where
  "noteRateLimit resp c =
     (case rateLimitHeader resp of
        None \<Rightarrow> c
      | Some h \<Rightarrow> c\<lparr>rateLimitRemaining := Some h\<rparr>)"

subsection \<open>Client v1.3.0\<close>

text \<open>\<open>buildUrl\<close> leaves out the parameters that are \<open>null\<close> or \<open>undefined\<close>.\<close>

definition buildUrl :: "jsobj \<Rightarrow> (string \<times> string) list" where
  "buildUrl obj =
     map (\<lambda>(key, v). (key, ToString v)) (filter (\<lambda>(key, v). v \<noteq> JNull \<and> v \<noteq> JUndefined) obj)"

text \<open>
  The default parameter \<open>params = {}\<close> is a fresh object; a write to a property of a
  non-object throws a \<open>TypeError\<close> in strict mode.
\<close>

definition argObject :: "arg \<Rightarrow> 'v client \<Rightarrow> (error + nat) \<times> 'v client" where
  "argObject a c =
     (case a of
        Omitted \<Rightarrow> (let (r, c) = alloc [] c in (Inr r, c))
      | NotObject \<Rightarrow> (Inl TypeError, c)
      | Ref r \<Rightarrow> (Inr r, c))"

definition receive_v130 :: "env \<Rightarrow> options \<Rightarrow> nat \<Rightarrow> jsobj client \<Rightarrow> (error + jsobj) \<times> jsobj client" where
  "receive_v130 ev opts params c =
     (case fetchResult ev of
        Aborted \<Rightarrow> (Inl FetchFailed, c)
      | Rejected \<Rightarrow> (Inl FetchFailed, c)
      | Resolved resp \<Rightarrow>
          if \<not> ok resp then (Inl (handleErrorResponse resp), c)
          else case json resp of
            None \<Rightarrow> (Inl BadJson, c)
          | Some d \<Rightarrow>
              (Inr d,
               if useCache opts
               then setCached (tSet ev) (stringify ev (Some (heap c params))) d c
               else c))"

definition send_v130 :: "env \<Rightarrow> options \<Rightarrow> nat \<Rightarrow> jsobj client \<Rightarrow> (error + jsobj) \<times> jsobj client" where
  "send_v130 ev opts params c =
     andThen (generateSignature (cryptoJS ev) (optStr (hmacSecret (config c)))
                (heap c params), c) (\<lambda>signature c.
       let c = setProp params ''signature'' (JStr signature) c
       in receive_v130 ev opts params
            (doFetch (GET (optStr (scriptUrl (config c))) (buildUrl (heap c params)) []) c))"

definition makeRequest_v130 :: "env \<Rightarrow> arg \<Rightarrow> options \<Rightarrow> jsobj client \<Rightarrow> (error + jsobj) \<times> jsobj client" where
  "makeRequest_v130 ev a opts c =
     andThen (checkRateLimit (tRate ev) c) (\<lambda>_ c.
     andThen (argObject a c) (\<lambda>params c.
       let c = setProp params ''token'' (optVal (apiToken (config c))) c;
           c = (if origin (config c) \<noteq> []
                then setProp params ''origin'' (JStr (origin (config c))) c else c);
           c = setProp params ''timestamp'' (JStr (toISOString ev (tStamp ev))) c;
           (cached, c) =
             (if useCache opts
              then getCached (tGet ev) (stringify ev (Some (heap c params))) c
              else (None, c))
       in case cached of
            Some d \<Rightarrow> (Inr d, c)
          | None \<Rightarrow> send_v130 ev opts params c))"

text \<open>After the \<open>await\<close> of a POST request; client v1.2.0 also notes the rate-limit header.\<close>

definition receivePost :: "env \<Rightarrow> bool \<Rightarrow> jsobj client \<Rightarrow> (error + jsobj) \<times> jsobj client" where
  "receivePost ev notes c =
     (case fetchResult ev of
        Aborted \<Rightarrow> (Inl FetchFailed, c)
      | Rejected \<Rightarrow> (Inl FetchFailed, c)
      | Resolved resp \<Rightarrow>
          if \<not> ok resp then (Inl (handleErrorResponse resp), c)
          else case json resp of
            None \<Rightarrow> (Inl BadJson, c)
          | Some d \<Rightarrow> (Inr d, if notes then noteRateLimit resp c else c))"

definition sendPost_v130 :: "env \<Rightarrow> nat \<Rightarrow> jsobj client \<Rightarrow> (error + jsobj) \<times> jsobj client" where
  "sendPost_v130 ev body c =
     andThen (generateSignature (cryptoJS ev) (optStr (hmacSecret (config c)))
                (heap c body), c) (\<lambda>signature c.
       let c = setProp body ''signature'' (JStr signature) c
       in receivePost ev False
            (doFetch (POST (optStr (scriptUrl (config c)))
                        [(''Content-Type'', JStr ''application/json'')] (heap c body)) c))"

definition makePostRequest_v130 :: "env \<Rightarrow> arg \<Rightarrow> options \<Rightarrow> jsobj client \<Rightarrow> (error + jsobj) \<times> jsobj client" where
  "makePostRequest_v130 ev a opts c =
     andThen (checkRateLimit (tRate ev) c) (\<lambda>_ c.
     andThen (argObject a c) (\<lambda>body c.
       let c = setProp body ''token'' (optVal (apiToken (config c))) c;
           c = (if origin (config c) \<noteq> []
                then setProp body ''origin'' (JStr (origin (config c))) c else c);
           c = setProp body ''timestamp'' (JStr (toISOString ev (tStamp ev))) c;
           c = (if enableCSRF (config c)
                then let (token, c) = getCSRFToken (tCsrf ev) (tCsrf2 ev) (csrfRnd ev) c
                     in setProp body ''csrf-token'' (optVal token) c
                else c)
       in sendPost_v130 ev body c))"

subsection \<open>Client v1.2.0\<close>

text \<open>
  \<open>generateAuthHeaders\<close>: the timestamp is in seconds; the nonce, when there is one,
  is signed and sent.
\<close>

definition generateAuthHeaders :: "env \<Rightarrow> string \<Rightarrow> 'v client \<Rightarrow> (error + jsobj) \<times> 'v client" where
  "generateAuthHeaders ev action c =
     (let timestamp = tStamp ev div 1000
      in andThen (generateNonce (nonceCand ev) c) (\<lambda>nonce c.
           let message = optStr (apiToken (config c)) @ '':'' @ dec timestamp @ '':'' @ action;
               message = (if present nonce then message @ '':'' @ optStr nonce else message)
           in andThen (computeHMAC (cryptoJS ev) message (optStr (hmacSecret (config c))), c)
                (\<lambda>signature c.
                  let hdrs = [(''X-API-Token'', optVal (apiToken (config c))),
                              (''X-Timestamp'', JStr (dec timestamp)),
                              (''X-Signature'', JStr signature)];
                      hdrs = (if present nonce then assign hdrs ''X-Nonce'' (optVal nonce)
                              else hdrs)
                  in (Inr hdrs, c))))"

text \<open>The object that an argument denotes when it is only read.\<close>

definition argRead :: "arg \<Rightarrow> 'v client \<Rightarrow> jsobj option" where
  "argRead a c = (case a of Omitted \<Rightarrow> Some [] | NotObject \<Rightarrow> None | Ref r \<Rightarrow> Some (heap c r))"

definition spreadArg :: "jsobj \<Rightarrow> jsobj option \<Rightarrow> jsobj" where
  "spreadArg base x = (case x of None \<Rightarrow> base | Some obj \<Rightarrow> spread base obj)"

definition receive_v120 :: "env \<Rightarrow> options \<Rightarrow> string \<Rightarrow> jsobj client \<Rightarrow> (error + jsobj) \<times> jsobj client" where
  "receive_v120 ev opts cacheKey c =
     (case fetchResult ev of
        Aborted \<Rightarrow> (Inl FetchFailed, c)
      | Rejected \<Rightarrow> (Inl FetchFailed, c)
      | Resolved resp \<Rightarrow>
          if \<not> ok resp then (Inl (handleErrorResponse resp), c)
          else case json resp of
            None \<Rightarrow> (Inl BadJson, c)
          | Some d \<Rightarrow>
              (let c = noteRateLimit resp c
               in (Inr d, if useCache opts then setCached (tSet ev) cacheKey d c else c)))"

definition send_v120 :: "env \<Rightarrow> options \<Rightarrow> string \<Rightarrow> arg \<Rightarrow> jsobj client \<Rightarrow> (error + jsobj) \<times> jsobj client" where
  "send_v120 ev opts action a c =
     (let queryParams = spreadArg [(''action'', JStr action)] (argRead a c)
      in andThen (generateAuthHeaders ev action c) (\<lambda>hdrs c.
           receive_v120 ev opts (action @ '':'' @ stringify ev (argRead a c))
             (doFetch (GET (optStr (scriptUrl (config c))) (urlParams queryParams) hdrs) c)))"

definition makeRequest_v120 :: "env \<Rightarrow> string \<Rightarrow> arg \<Rightarrow> options \<Rightarrow> jsobj client \<Rightarrow> (error + jsobj) \<times> jsobj client" where
  "makeRequest_v120 ev action a opts c =
     andThen (checkRateLimit (tRate ev) c) (\<lambda>_ c.
       let cacheKey = action @ '':'' @ stringify ev (argRead a c);
           (cached, c) = (if useCache opts then getCached (tGet ev) cacheKey c else (None, c))
       in case cached of
            Some d \<Rightarrow> (Inr d, c)
          | None \<Rightarrow> send_v120 ev opts action a c)"

text \<open>
  With CSRF enabled the token goes into the headers and is written to the caller's
  \<open>body\<close>; the request body is \<open>{ action, ...body }\<close>.
\<close>

definition csrfPost_v120 :: "env \<Rightarrow> jsobj \<Rightarrow> arg \<Rightarrow> jsobj client \<Rightarrow> (error + jsobj \<times> arg) \<times> jsobj client" where
  "csrfPost_v120 ev hdrs a c =
     (if enableCSRF (config c)
      then let (token, c) = getCSRFToken (tCsrf ev) (tCsrf2 ev) (csrfRnd ev) c
           in andThen (argObject a c) (\<lambda>body c.
                (Inr (assign hdrs ''X-CSRF-Token'' (optVal token), Ref body),
                 setProp body ''csrfToken'' (optVal token) c))
      else (Inr (hdrs, a), c))"

definition makePostRequest_v120 :: "env \<Rightarrow> string \<Rightarrow> arg \<Rightarrow> options \<Rightarrow> jsobj client \<Rightarrow> (error + jsobj) \<times> jsobj client" where
  "makePostRequest_v120 ev action a opts c =
     andThen (checkRateLimit (tRate ev) c) (\<lambda>_ c.
     andThen (generateAuthHeaders ev action c) (\<lambda>hdrs c.
     andThen (csrfPost_v120 ev (assign hdrs ''Content-Type'' (JStr ''application/json'')) a c)
       (\<lambda>(hdrs, a) c.
          receivePost ev True
            (doFetch (POST (optStr (scriptUrl (config c))) hdrs
                        (spreadArg [(''action'', JStr action)] (argRead a c))) c))))"

section \<open>Properties of objects\<close>

lemma arrayIndex_name:
  assumes "key \<noteq> []" and "\<not> isDigit (hd key)"
  shows "arrayIndex key = None"
  using assms by (cases key) (auto simp: arrayIndex_def)

lemma assign_new_name:
  assumes "key \<notin> set (keys obj)" and "arrayIndex key = None"
  shows "assign obj key v = obj @ [(key, v)]"
  using assms by (simp add: assign_def)

lemma assign_fromCache:
  "assign [(''success'', JBool True)] ''fromCache'' (JBool True)
     = [(''success'', JBool True), (''fromCache'', JBool True)]"
  by (simp add: assign_new_name arrayIndex_name keys_def isDigit_def less_eq_char_def)

section \<open>Properties of the signer\<close>

lemma shuffle_keys_sorted:
  assumes "mset q = mset p"
  shows "sortedKeys q = sortedKeys p"
proof -
  have "mset (keys q) = mset (keys p)"
    using assms by (metis keys_def mset_map)
  then show ?thesis
    unfolding sortedKeys_def by (metis properties_for_sort sorted_sort mset_sort)
qed

lemma shuffle_prop:
  assumes "wf_obj p" and "mset q = mset p"
  shows "getProp q = getProp p"
proof -
  have "mset (map fst q) = mset (map fst p)"
    using assms(2) by (metis mset_map)
  then have dq: "distinct (map fst q)"
    using assms(1) unfolding wf_obj_def keys_def by (metis mset_eq_imp_distinct_iff)
  have dp: "distinct (map fst p)"
    using assms(1) by (simp add: wf_obj_def keys_def)
  have "set q = set p"
    using assms(2) by (metis mset_eq_setD)
  then have "map_of q = map_of p"
    using dp dq by (simp add: map_of_inject_set)
  then show ?thesis
    by (simp add: getProp_def fun_eq_iff)
qed

text \<open>
  C1. The signature does not depend on the insertion order of the parameters: for a
  parameter object \<open>p\<close> and any reordering \<open>q\<close> of its properties, \<open>createSignature\<close>
  (v1.0.0) and \<open>generateSignature\<close> (v1.3.0) return the same result, because the
  canonical string is built from the sorted key list.
\<close>

theorem signature_order_independent:
  assumes "wf_obj p" and "mset q = mset p"
  shows "createSignature cj q s = createSignature cj p s
       \<and> generateSignature cj s q = generateSignature cj s p
       \<and> createSignatureString q = createSignatureString p
       \<and> generateSignatureString q = generateSignatureString p"
  using shuffle_keys_sorted [OF assms(2)] shuffle_prop [OF assms]
  by (simp add: createSignature_def generateSignature_def createSignatureString_def
      generateSignatureString_def createParts_def generateParts_def)

theorem signature_order_independent_witness:
  "wf_obj [(''b'', JStr ''2''), (''a'', JNum 1)]
   \<and> mset [(''a'', JNum 1), (''b'', JStr ''2'')] = mset [(''b'', JStr ''2''), (''a'', JNum 1)]
   \<and> createSignature (Some (\<lambda>m k. k @ m)) [(''a'', JNum 1), (''b'', JStr ''2'')] ''s''
     = createSignature (Some (\<lambda>m k. k @ m)) [(''b'', JStr ''2''), (''a'', JNum 1)] ''s''
   \<and> createSignatureString [(''b'', JStr ''2''), (''a'', JNum 1)] = ''a=1&b=2''"
proof -
  have wf: "wf_obj [(''b'', JStr ''2''), (''a'', JNum 1)]"
    by (simp add: wf_obj_def keys_def)
  have ms: "mset [(''a'', JNum 1), (''b'', JStr ''2'')] = mset [(''b'', JStr ''2''), (''a'', JNum 1)]"
    by simp
  have ev: "createSignatureString [(''b'', JStr ''2''), (''a'', JNum 1)] = ''a=1&b=2''"
    by code_simp
  show ?thesis
    using signature_order_independent [OF wf ms, of "Some (\<lambda>m k. k @ m)" "''s''"] wf ms ev
    by simp
qed

section \<open>Properties of the rate limiter\<close>

lemma checkRateLimit_within:
  assumes "rateLimitEnabled (config c)" and "int t - int (requestWindow c) \<le> oneHour"
    and "requestCount c < maxRequests (config c)"
  shows "checkRateLimit t c = (Inr True, c\<lparr>requestCount := requestCount c + 1\<rparr>)"
  using assms by (simp add: checkRateLimit_def)

lemma checkMany_within:
  assumes "rateLimitEnabled (config c)"
    and "\<forall>t\<in>set ts. int t - int (requestWindow c) \<le> oneHour"
    and "requestCount c + int (length ts) \<le> maxRequests (config c)"
  shows "checkMany ts c =
    (replicate (length ts) (Inr True), c\<lparr>requestCount := requestCount c + int (length ts)\<rparr>)"
  using assms
proof (induction ts arbitrary: c)
  case Nil
  then show ?case by simp
next
  case (Cons t ts)
  let ?c1 = "c\<lparr>requestCount := requestCount c + 1\<rparr>"
  have step: "checkRateLimit t c = (Inr True, ?c1)"
    using Cons.prems by (intro checkRateLimit_within) auto
  have "checkMany ts ?c1 =
    (replicate (length ts) (Inr True), ?c1\<lparr>requestCount := requestCount ?c1 + int (length ts)\<rparr>)"
    using Cons.prems by (intro Cons.IH) auto
  then show ?case using step by (simp add: add.assoc)
qed

text \<open>
  C2 (amended). With rate limiting enabled: after exactly \<open>maxRequests\<close> calls made
  within one hour of the window start, all of which succeed, the next call within that
  hour fails with \<open>RateLimitExceeded\<close> carrying the reset time
  \<open>requestWindow + oneHour\<close>, and leaves the state as it is; and a call that arrives
  more than one hour after the window start always resets the window to
  \<open>(0, now)\<close>; it then succeeds and leaves the count at 1 when \<open>maxRequests\<close> is
  at least 1, and otherwise fails with \<open>RateLimitExceeded\<close> carrying
  \<open>now + oneHour\<close>, the count staying 0.
\<close>

theorem rate_limit_quota_and_reset:
  assumes en: "rateLimitEnabled (config c)"
  shows "(requestCount c = 0 \<and> int (length ts) = maxRequests (config c)
          \<and> (\<forall>t\<in>set ts. int t - int (requestWindow c) \<le> oneHour)
          \<and> int t' - int (requestWindow c) \<le> oneHour
          \<longrightarrow> fst (checkMany ts c) = replicate (length ts) (Inr True)
            \<and> requestCount (snd (checkMany ts c)) = maxRequests (config c)
            \<and> checkRateLimit t' (snd (checkMany ts c))
                = (Inl (RateLimitExceeded (int (requestWindow c) + oneHour)),
                   snd (checkMany ts c)))
       \<and> (int now - int (requestWindow c) > oneHour
          \<longrightarrow> checkRateLimit now c =
              (if 1 \<le> maxRequests (config c)
               then (Inr True, c\<lparr>requestCount := 1, requestWindow := now\<rparr>)
               else (Inl (RateLimitExceeded (int now + oneHour)),
                     c\<lparr>requestCount := 0, requestWindow := now\<rparr>)))"
proof (intro conjI impI)
  assume a: "requestCount c = 0 \<and> int (length ts) = maxRequests (config c)
          \<and> (\<forall>t\<in>set ts. int t - int (requestWindow c) \<le> oneHour)
          \<and> int t' - int (requestWindow c) \<le> oneHour"
  have run: "checkMany ts c =
      (replicate (length ts) (Inr True), c\<lparr>requestCount := requestCount c + int (length ts)\<rparr>)"
    using en a by (intro checkMany_within) auto
  show "fst (checkMany ts c) = replicate (length ts) (Inr True)"
    using run by simp
  show "requestCount (snd (checkMany ts c)) = maxRequests (config c)"
    using run a by simp
  show "checkRateLimit t' (snd (checkMany ts c))
      = (Inl (RateLimitExceeded (int (requestWindow c) + oneHour)), snd (checkMany ts c))"
    using run a en by (simp add: checkRateLimit_def)
next
  assume late: "int now - int (requestWindow c) > oneHour"
  let ?c1 = "c\<lparr>requestCount := 0, requestWindow := now\<rparr>"
  show "checkRateLimit now c =
      (if 1 \<le> maxRequests (config c)
       then (Inr True, c\<lparr>requestCount := 1, requestWindow := now\<rparr>)
       else (Inl (RateLimitExceeded (int now + oneHour)), ?c1))"
  proof (cases "1 \<le> maxRequests (config c)")
    case True
    then have "\<not> requestCount ?c1 \<ge> maxRequests (config ?c1)" by simp
    then show ?thesis using en late True by (simp add: checkRateLimit_def)
  next
    case False
    then have "requestCount ?c1 \<ge> maxRequests (config ?c1)" by simp
    then show ?thesis using en late False by (simp add: checkRateLimit_def)
  qed
qed

theorem rate_limit_quota_and_reset_witness:
  "rateLimitEnabled (config ((initial 0 :: jsobj client)\<lparr>config := (config (initial 0 :: jsobj client))\<lparr>maxRequests := 2\<rparr>\<rparr>))
   \<and> fst (checkMany [10, 20]
        ((initial 0 :: jsobj client)\<lparr>config := (config (initial 0 :: jsobj client))\<lparr>maxRequests := 2\<rparr>\<rparr>))
       = [Inr True, Inr True]
   \<and> fst (checkRateLimit 30 (snd (checkMany [10, 20]
        ((initial 0 :: jsobj client)\<lparr>config := (config (initial 0 :: jsobj client))\<lparr>maxRequests := 2\<rparr>\<rparr>))))
       = Inl (RateLimitExceeded 3600000)
   \<and> fst (checkRateLimit 3600001
        ((initial 0 :: jsobj client)\<lparr>config := (config (initial 0 :: jsobj client))\<lparr>maxRequests := 2\<rparr>\<rparr>))
       = Inr True
   \<and> requestCount (snd (checkRateLimit 3600001
        ((initial 0 :: jsobj client)\<lparr>config := (config (initial 0 :: jsobj client))\<lparr>maxRequests := 2\<rparr>\<rparr>)))
       = 1
   \<and> requestWindow (snd (checkRateLimit 3600001
        ((initial 0 :: jsobj client)\<lparr>config := (config (initial 0 :: jsobj client))\<lparr>maxRequests := 2\<rparr>\<rparr>)))
       = 3600001"
  using rate_limit_quota_and_reset
    [of "(initial 0 :: jsobj client)\<lparr>config := (config (initial 0 :: jsobj client))\<lparr>maxRequests := 2\<rparr>\<rparr>"
        "[10, 20]" 30 3600001]
  by (simp add: initial_def oneHour_def)

text \<open>
  With \<open>maxRequests = 0\<close>, which \<open>configure\<close> of client v1.0.0 accepts, the call that
  arrives after the window has passed is rejected although the window was reset.
\<close>

theorem rate_limit_reset_counterexample:
  "rateLimitEnabled (config ((initial 0 :: jsobj client)\<lparr>config := (config (initial 0 :: jsobj client))\<lparr>maxRequests := 0\<rparr>\<rparr>))
   \<and> int 3600001 - int (requestWindow
        ((initial 0 :: jsobj client)\<lparr>config := (config (initial 0 :: jsobj client))\<lparr>maxRequests := 0\<rparr>\<rparr>))
       > oneHour
   \<and> fst (checkRateLimit 3600001
        ((initial 0 :: jsobj client)\<lparr>config := (config (initial 0 :: jsobj client))\<lparr>maxRequests := 0\<rparr>\<rparr>))
       = Inl (RateLimitExceeded 7200001)"
  by (simp add: checkRateLimit_def initial_def oneHour_def)

section \<open>Properties of the response cache\<close>

lemma getCached_absent:
  assumes "cache c k = None"
  shows "cache (snd (getCached t k' c)) k = None"
  using assms by (simp add: getCached_def split: option.splits)

lemma getMany_absent:
  assumes "cache c k = None"
  shows "cache (getMany rs c) k = None"
  using assms
proof (induction rs arbitrary: c)
  case Nil
  then show ?case by simp
next
  case (Cons r rs)
  obtain t k' where r: "r = (t, k')" by (cases r)
  have "cache (snd (getCached t k' c)) k = None"
    using Cons.prems by (rule getCached_absent)
  then show ?case using r Cons.IH by simp
qed

lemma getCached_v100_absent:
  assumes "cache c k = None"
  shows "cache (snd (getCached_v100 t k' c)) k = None"
  using assms by (simp add: getCached_v100_def split: option.splits)

lemma getMany_v100_absent:
  assumes "cache c k = None"
  shows "cache (getMany_v100 rs c) k = None"
  using assms
proof (induction rs arbitrary: c)
  case Nil
  then show ?case by simp
next
  case (Cons r rs)
  obtain t k' where r: "r = (t, k')" by (cases r)
  have "cache (snd (getCached_v100 t k' c)) k = None"
    using Cons.prems by (rule getCached_v100_absent)
  then show ?case using r Cons.IH by simp
qed

lemma cache_fresh:
  assumes "int t \<le> int now + cacheTimeout (config c)"
  shows "getCached t k (setCached now k v c) = (Some v, setCached now k v c)"
  using assms by (simp add: getCached_def setCached_def)

lemma cache_fresh_v100:
  assumes "enableCache (config c)" and "int t \<le> int now + ttl * 1000"
  shows "getCached_v100 t k (setCached_v100 now k v (Some ttl) c)
       = (Some (assign v ''fromCache'' (JBool True)), setCached_v100 now k v (Some ttl) c)"
  using assms by (simp add: getCached_v100_def setCached_v100_def)

lemma cache_expired:
  assumes "cache c k = Some e" and "int t > expires e"
  shows "getCached t k c = (None, c\<lparr>cache := (cache c)(k := None)\<rparr>)"
  using assms by (simp add: getCached_def)

lemma cache_expired_v100:
  assumes "enableCache (config c)" and "cache c k = Some e" and "int t > expires e"
  shows "getCached_v100 t k c = (None, c\<lparr>cache := (cache c)(k := None)\<rparr>)"
  using assms by (simp add: getCached_v100_def)

text \<open>
  C3 (amended). For every key and value: when the lifetime is not negative
  (\<open>cacheTimeout\<close> in clients v1.2.0 and v1.3.0, \<open>ttl\<close> in client v1.0.0 with caching
  enabled), \<open>setCached\<close> followed at once by \<open>getCached\<close> returns exactly the value
  in v1.2.0 and v1.3.0, and in v1.0.0 a copy of it with \<open>fromCache = true\<close> added. A
  read after the entry's expiry returns absent and deletes the entry, and every later
  read of the key, after any run of reads and no write, returns absent too.
\<close>

theorem cache_roundtrip_and_expiry:
  fixes c :: "'v client" and d :: "jsobj client"
  shows "(0 \<le> cacheTimeout (config c)
          \<longrightarrow> getCached now k (setCached now k v c) = (Some v, setCached now k v c))
       \<and> (enableCache (config d) \<and> 0 \<le> ttl
          \<longrightarrow> getCached_v100 now k (setCached_v100 now k w (Some ttl) d)
              = (Some (assign w ''fromCache'' (JBool True)), setCached_v100 now k w (Some ttl) d))
       \<and> (cache c k = Some e \<and> int t > expires e
          \<longrightarrow> getCached t k c = (None, c\<lparr>cache := (cache c)(k := None)\<rparr>)
            \<and> fst (getCached t2 k (getMany rs (c\<lparr>cache := (cache c)(k := None)\<rparr>))) = None)
       \<and> (enableCache (config d) \<and> cache d k = Some e2 \<and> int t > expires e2
          \<longrightarrow> getCached_v100 t k d = (None, d\<lparr>cache := (cache d)(k := None)\<rparr>)
            \<and> fst (getCached_v100 t2 k (getMany_v100 rs (d\<lparr>cache := (cache d)(k := None)\<rparr>))) = None)"
proof (intro conjI impI)
  assume "0 \<le> cacheTimeout (config c)"
  then show "getCached now k (setCached now k v c) = (Some v, setCached now k v c)"
    by (intro cache_fresh) simp
next
  assume "enableCache (config d) \<and> 0 \<le> ttl"
  then show "getCached_v100 now k (setCached_v100 now k w (Some ttl) d)
      = (Some (assign w ''fromCache'' (JBool True)), setCached_v100 now k w (Some ttl) d)"
    by (intro cache_fresh_v100) simp_all
next
  assume a: "cache c k = Some e \<and> int t > expires e"
  then show "getCached t k c = (None, c\<lparr>cache := (cache c)(k := None)\<rparr>)"
    using cache_expired [of c k e t] by simp
  have "cache (getMany rs (c\<lparr>cache := (cache c)(k := None)\<rparr>)) k = None"
    by (rule getMany_absent) simp
  then show "fst (getCached t2 k (getMany rs (c\<lparr>cache := (cache c)(k := None)\<rparr>))) = None"
    by (simp add: getCached_def)
next
  assume a: "enableCache (config d) \<and> cache d k = Some e2 \<and> int t > expires e2"
  then show "getCached_v100 t k d = (None, d\<lparr>cache := (cache d)(k := None)\<rparr>)"
    using cache_expired_v100 [of d k e2 t] by simp
  have "cache (getMany_v100 rs (d\<lparr>cache := (cache d)(k := None)\<rparr>)) k = None"
    by (rule getMany_v100_absent) simp
  then show "fst (getCached_v100 t2 k (getMany_v100 rs (d\<lparr>cache := (cache d)(k := None)\<rparr>))) = None"
    by (simp add: getCached_v100_def)
qed

theorem cache_roundtrip_and_expiry_witness:
  "0 \<le> cacheTimeout (config (initial 0 :: jsobj client))
   \<and> fst (getCached 5 ''k'' (setCached 5 ''k'' [(''success'', JBool True)] (initial 0)))
       = Some [(''success'', JBool True)]
   \<and> enableCache (config (initial_v100 0))
   \<and> fst (getCached_v100 5 ''k''
          (setCached_v100 5 ''k'' [(''success'', JBool True)] (Some 300) (initial_v100 0)))
       = Some [(''success'', JBool True), (''fromCache'', JBool True)]
   \<and> fst (getCached 300006 ''k'' (setCached 5 ''k'' [(''success'', JBool True)] (initial 0))) = None
   \<and> cache (snd (getCached 300006 ''k''
          (setCached 5 ''k'' [(''success'', JBool True)] (initial 0)))) ''k'' = None
   \<and> fst (getCached 7 ''k'' (getMany [(6, ''j''), (7, ''k'')] (snd (getCached 300006 ''k''
          (setCached 5 ''k'' [(''success'', JBool True)] (initial 0)))))) = None
   \<and> fst (getCached_v100 300006 ''k''
          (setCached_v100 5 ''k'' [(''success'', JBool True)] (Some 300) (initial_v100 0))) = None
   \<and> fst (getCached_v100 7 ''k'' (getMany_v100 [(6, ''j'')] (snd (getCached_v100 300006 ''k''
          (setCached_v100 5 ''k'' [(''success'', JBool True)] (Some 300) (initial_v100 0))))))
       = None"
proof -
  let ?v = "[(''success'', JBool True)]"
  let ?c = "initial 0 :: jsobj client"
  let ?d = "initial_v100 0"
  let ?c1 = "setCached 5 ''k'' ?v ?c"
  let ?d1 = "setCached_v100 5 ''k'' ?v (Some 300) ?d"
  have h1: "0 \<le> cacheTimeout (config ?c)" and h2: "enableCache (config ?d)"
    by (simp_all add: initial_def initial_v100_def)
  have h3: "cache ?c1 ''k'' = Some \<lparr>data = ?v, expires = 300005\<rparr>"
    by (simp add: setCached_def initial_def)
  have h4: "enableCache (config ?d1)"
    and h5: "cache ?d1 ''k'' = Some \<lparr>data = ?v, expires = 300005\<rparr>"
    by (simp_all add: setCached_v100_def initial_def initial_v100_def)
  note a = cache_roundtrip_and_expiry
    [where c = ?c and d = ?d and now = 5 and k = "''k''" and v = ?v and w = ?v and ttl = 300]
  note b = cache_roundtrip_and_expiry
    [where c = ?c1 and d = ?d1 and k = "''k''" and e = "\<lparr>data = ?v, expires = 300005\<rparr>"
       and ?e2.0 = "\<lparr>data = ?v, expires = 300005\<rparr>" and t = 300006 and ?t2.0 = 7
       and rs = "[(6, ''j''), (7, ''k'')]"]
  note b2 = cache_roundtrip_and_expiry
    [where c = ?c1 and d = ?d1 and k = "''k''" and e = "\<lparr>data = ?v, expires = 300005\<rparr>"
       and ?e2.0 = "\<lparr>data = ?v, expires = 300005\<rparr>" and t = 300006 and ?t2.0 = 7
       and rs = "[(6, ''j'')]"]
  show ?thesis
    using a b b2 h1 h2 h3 h4 h5 by (simp add: assign_fromCache)
qed

theorem cache_roundtrip_counterexample:
  "fst (getCached 5 ''k'' (setCached 5 ''k'' [(''success'', JBool True)]
          ((initial 0)\<lparr>config := (config (initial 0 :: jsobj client))\<lparr>cacheTimeout := - 1\<rparr>\<rparr>)))
     \<noteq> Some [(''success'', JBool True)]
   \<and> fst (getCached_v100 5 ''k''
          (setCached_v100 5 ''k'' [(''success'', JBool True)] (Some 300) (initial_v100 0)))
     \<noteq> Some [(''success'', JBool True)]"
  by (simp add: getCached_def setCached_def getCached_v100_def setCached_v100_def
      initial_def initial_v100_def assign_fromCache)

section \<open>Properties of the decimal rendering\<close>

declare dec.simps [simp del]

lemma digit_val: "d < 10 \<Longrightarrow> of_char (digit d) = 48 + d"
  by (simp add: digit_def)

lemma dec_value: "foldl (\<lambda>a ch. 10 * a + (of_char ch - 48)) 0 (dec n) = n"
proof (induction n rule: dec.induct)
  case (1 n)
  show ?case
  proof (cases "n < 10")
    case True
    then show ?thesis by (simp add: dec.simps [of n] digit_val)
  next
    case False
    then have "foldl (\<lambda>a ch. 10 * a + (of_char ch - 48)) 0 (dec (n div 10)) = n div 10"
      using "1.IH" by simp
    then show ?thesis using False by (simp add: dec.simps [of n] digit_val)
  qed
qed

lemma dec_inject: "dec m = dec n \<Longrightarrow> m = n"
  by (metis dec_value)



section \<open>Properties of the nonce generator\<close>

declare nonceLoop.simps [simp del]

lemma nonceLoop_result:
  assumes "a < maxAttempts" and "nonceLoop cand used a = (n, k)"
  shows "(k < maxAttempts \<longrightarrow> n \<notin> set used \<and> a < k \<and> cand (k - 1) = n
            \<and> (\<forall>j. a \<le> j \<and> j < k - 1 \<longrightarrow> cand j \<in> set used))
       \<and> (k \<ge> maxAttempts \<longrightarrow> k = maxAttempts \<and> n = cand 9
            \<and> (\<forall>j. a \<le> j \<and> j < 9 \<longrightarrow> cand j \<in> set used))"
  using assms
proof (induction cand used a arbitrary: n k rule: nonceLoop.induct)
  case (1 cand used attempts)
  show ?case
  proof (cases "cand attempts \<in> set used \<and> attempts + 1 < maxAttempts")
    case True
    then have rec: "nonceLoop cand used (attempts + 1) = (n, k)"
      using "1.prems"(2) by (simp add: nonceLoop.simps [of cand used attempts])
    have ih: "(k < maxAttempts \<longrightarrow> n \<notin> set used \<and> attempts + 1 < k \<and> cand (k - 1) = n
            \<and> (\<forall>j. attempts + 1 \<le> j \<and> j < k - 1 \<longrightarrow> cand j \<in> set used))
       \<and> (k \<ge> maxAttempts \<longrightarrow> k = maxAttempts \<and> n = cand 9
            \<and> (\<forall>j. attempts + 1 \<le> j \<and> j < 9 \<longrightarrow> cand j \<in> set used))"
      using "1.IH" [OF refl refl True _ rec] True by simp
    have step: "\<And>j. attempts \<le> j \<Longrightarrow> j = attempts \<or> attempts + 1 \<le> j" by arith
    show ?thesis using ih True step by (metis add_lessD1)
  next
    case False
    then have res: "n = cand attempts" "k = attempts + 1"
      using "1.prems"(2) by (auto simp add: nonceLoop.simps [of cand used attempts])
    have nine: "attempts + 1 \<ge> maxAttempts \<Longrightarrow> attempts = 9"
      using "1.prems"(1) by (simp add: maxAttempts_def)
    show ?thesis
    proof (cases "attempts + 1 < maxAttempts")
      case True
      then show ?thesis using res False by auto
    next
      case False
      then have "attempts = 9" using nine by simp
      then show ?thesis using res by (auto simp add: maxAttempts_def)
    qed
  qed
qed

lemma generateNonce_exhausted_iff:
  assumes "enableNonce (config c)"
  shows "(fst (generateNonce cand c) = Inl NonceExhausted)
       = (\<forall>j<9. cand j \<in> set (usedNonces c))"
proof -
  obtain n k where nk: "nonceLoop cand (usedNonces c) 0 = (n, k)"
    by (cases "nonceLoop cand (usedNonces c) 0")
  have r: "(k < maxAttempts \<longrightarrow> n \<notin> set (usedNonces c) \<and> 0 < k \<and> cand (k - 1) = n
            \<and> (\<forall>j. 0 \<le> j \<and> j < k - 1 \<longrightarrow> cand j \<in> set (usedNonces c)))
       \<and> (k \<ge> maxAttempts \<longrightarrow> k = maxAttempts \<and> n = cand 9
            \<and> (\<forall>j. 0 \<le> j \<and> j < 9 \<longrightarrow> cand j \<in> set (usedNonces c)))"
    using nonceLoop_result [OF _ nk] by (simp add: maxAttempts_def)
  show ?thesis
  proof (cases "k < maxAttempts")
    case True
    then have "k - 1 < 9" "cand (k - 1) \<notin> set (usedNonces c)"
      using r by (auto simp: maxAttempts_def)
    then have "\<not> (\<forall>j<9. cand j \<in> set (usedNonces c))" by blast
    moreover have "fst (generateNonce cand c) \<noteq> Inl NonceExhausted"
      using True assms nk by (simp add: generateNonce_def Let_def)
    ultimately show ?thesis by simp
  next
    case False
    then have "\<forall>j<9. cand j \<in> set (usedNonces c)" using r by simp
    moreover have "fst (generateNonce cand c) = Inl NonceExhausted"
      using False assms nk by (simp add: generateNonce_def)
    ultimately show ?thesis by simp
  qed
qed

lemma generateNonce_success:
  assumes "generateNonce cand c = (Inr (Some n), c1)"
  shows "n \<notin> set (usedNonces c)
       \<and> c1 = c\<lparr>usedNonces := (if length (usedNonces c @ [n]) > 1000
                               then deleteFirst (usedNonces c @ [n]) else usedNonces c @ [n])\<rparr>"
proof -
  obtain m k where nk: "nonceLoop cand (usedNonces c) 0 = (m, k)"
    by (cases "nonceLoop cand (usedNonces c) 0")
  have en: "enableNonce (config c)" and k: "k < maxAttempts"
    using assms nk by (auto simp: generateNonce_def Let_def split: if_splits)
  have fresh: "m \<notin> set (usedNonces c)"
    using nonceLoop_result [OF _ nk] k by (simp add: maxAttempts_def)
  show ?thesis
    using assms nk en k fresh by (auto simp: generateNonce_def Let_def setAdd_def)
qed


lemma generateNonce_bounded:
  assumes "length (usedNonces c) \<le> 1000"
  shows "length (usedNonces (snd (generateNonce cand c))) \<le> 1000"
proof (cases "generateNonce cand c")
  case (Pair r c1)
  show ?thesis
  proof (cases r)
    case (Inl e)
    then have "c1 = c"
      using Pair by (auto simp: generateNonce_def Let_def split: if_splits prod.splits)
    then show ?thesis using Pair assms by simp
  next
    case (Inr v)
    show ?thesis
    proof (cases v)
      case None
      then have "c1 = c"
        using Pair Inr by (auto simp: generateNonce_def Let_def split: if_splits prod.splits)
      then show ?thesis using Pair assms by simp
    next
      case (Some n)
      have c1: "c1 = c\<lparr>usedNonces := (if length (usedNonces c @ [n]) > 1000
                  then deleteFirst (usedNonces c @ [n]) else usedNonces c @ [n])\<rparr>"
        using generateNonce_success Pair Inr Some by blast
      have "length (deleteFirst (usedNonces c @ [n])) = length (usedNonces c)"
        by (cases "usedNonces c") (simp_all add: deleteFirst_def)
      then show ?thesis using c1 Pair assms by simp
    qed
  qed
qed

lemma generateMany_length:
  "generateMany cands c = (rs, c1) \<Longrightarrow> length rs = length cands"
  by (induction cands arbitrary: c rs c1) (auto split: prod.splits)

text \<open>
  The stored set is the last 1000 of the nonces returned so far, without repetition; the
  first 1001 nonces returned are pairwise different.
\<close>

lemma nonce_step_invariant:
  assumes used: "used = drop (length seen - 1000) seen"
    and dist: "distinct used"
    and early: "length seen \<le> 1001 \<longrightarrow> distinct seen"
    and fresh: "n \<notin> set used"
  defines "used1 \<equiv> (if length (used @ [n]) > 1000 then deleteFirst (used @ [n]) else used @ [n])"
  shows "used1 = drop (length (seen @ [n]) - 1000) (seen @ [n])
       \<and> distinct used1
       \<and> (length (seen @ [n]) \<le> 1001 \<longrightarrow> distinct (seen @ [n]))"
proof (cases "length seen < 1000")
  case True
  then have "used = seen" using used by simp
  then show ?thesis using True dist fresh by (simp add: used1_def)
next
  case False
  then have len: "length used = 1000" using used by simp
  then obtain x xs where xxs: "used = x # xs" by (cases used) auto
  have "deleteFirst (used @ [n]) = xs @ [n]"
    using xxs by (simp add: deleteFirst_def)
  then have u1: "used1 = tl used @ [n]"
    using len xxs by (simp add: used1_def)
  have "tl used = drop (Suc (length seen - 1000)) seen"
    using used by (simp add: drop_Suc tl_drop)
  moreover have "Suc (length seen - 1000) = length (seen @ [n]) - 1000"
    using False by simp
  moreover have "length (seen @ [n]) - 1000 \<le> length seen"
    by simp
  ultimately have a: "used1 = drop (length (seen @ [n]) - 1000) (seen @ [n])"
    using u1 by (metis drop_append diff_is_0_eq drop0)
  have b: "distinct used1"
    using u1 dist fresh xxs by auto
  have c: "length (seen @ [n]) \<le> 1001 \<longrightarrow> distinct (seen @ [n])"
  proof
    assume "length (seen @ [n]) \<le> 1001"
    then have "length seen = 1000" using False by simp
    then have "used = seen" "distinct seen" using used early by simp_all
    then show "distinct (seen @ [n])" using fresh by simp
  qed
  show ?thesis using a b c by simp
qed

lemma generateMany_invariant:
  assumes "usedNonces c = drop (length seen - 1000) seen"
    and "distinct (usedNonces c)"
    and "length seen \<le> 1001 \<longrightarrow> distinct seen"
    and "generateMany cands c = (map (\<lambda>n. Inr (Some n)) ns, c1)"
  shows "usedNonces c1 = drop (length (seen @ ns) - 1000) (seen @ ns)
       \<and> distinct (usedNonces c1)
       \<and> (length (seen @ ns) \<le> 1001 \<longrightarrow> distinct (seen @ ns))"
  using assms
proof (induction cands arbitrary: c seen ns c1)
  case Nil
  then show ?case by simp
next
  case (Cons cand cands)
  obtain r c2 where step: "generateNonce cand c = (r, c2)"
    by (cases "generateNonce cand c")
  obtain rs c3 where rest: "generateMany cands c2 = (rs, c3)"
    by (cases "generateMany cands c2")
  have eq: "r # rs = map (\<lambda>n. Inr (Some n)) ns" and c3: "c3 = c1"
    using Cons.prems(4) step rest by simp_all
  then obtain n ns1 where ns: "ns = n # ns1" and r: "r = Inr (Some n)"
    and rs: "rs = map (\<lambda>n. Inr (Some n)) ns1"
    by (cases ns) auto
  have suc: "n \<notin> set (usedNonces c)"
    and c2: "c2 = c\<lparr>usedNonces := (if length (usedNonces c @ [n]) > 1000
                  then deleteFirst (usedNonces c @ [n]) else usedNonces c @ [n])\<rparr>"
    using generateNonce_success step r by blast+
  have inv: "usedNonces c2 = drop (length (seen @ [n]) - 1000) (seen @ [n])
       \<and> distinct (usedNonces c2)
       \<and> (length (seen @ [n]) \<le> 1001 \<longrightarrow> distinct (seen @ [n]))"
  proof -
    have uc2: "usedNonces c2 = (if length (usedNonces c @ [n]) > 1000
                  then deleteFirst (usedNonces c @ [n]) else usedNonces c @ [n])"
      using c2 by simp
    show ?thesis
      unfolding uc2
      by (rule nonce_step_invariant [OF Cons.prems(1) Cons.prems(2) Cons.prems(3) suc])
  qed
  have app: "(seen @ [n]) @ ns1 = seen @ ns"
    using ns by simp
  have fin: "usedNonces c3 = drop (length ((seen @ [n]) @ ns1) - 1000) ((seen @ [n]) @ ns1)
       \<and> distinct (usedNonces c3)
       \<and> (length ((seen @ [n]) @ ns1) \<le> 1001 \<longrightarrow> distinct ((seen @ [n]) @ ns1))"
  proof -
    have rest1: "generateMany cands c2 = (map (\<lambda>n. Inr (Some n)) ns1, c3)"
      using rest rs by simp
    show ?thesis
      by (rule Cons.IH [OF conjunct1 [OF inv] conjunct1 [OF conjunct2 [OF inv]]
            conjunct2 [OF conjunct2 [OF inv]] rest1])
  qed
  show ?case using fin unfolding app c3 .
qed

lemma generateNonce_fresh_first:
  assumes "enableNonce (config c)" and "n \<notin> set (usedNonces c)"
  shows "fst (generateNonce (\<lambda>i. n) c) = Inr (Some n)
       \<and> set (usedNonces (snd (generateNonce (\<lambda>i. n) c))) \<subseteq> insert n (set (usedNonces c))
       \<and> config (snd (generateNonce (\<lambda>i. n) c)) = config c"
proof -
  have loop: "nonceLoop (\<lambda>i. n) (usedNonces c) 0 = (n, 1)"
    using assms(2) by (simp add: nonceLoop.simps [of _ _ 0])
  have "set (deleteFirst (usedNonces c @ [n])) \<subseteq> insert n (set (usedNonces c))"
    by (cases "usedNonces c") (auto simp: deleteFirst_def dest: notin_set_remove1)
  then show ?thesis
    using assms loop by (auto simp: generateNonce_def Let_def setAdd_def maxAttempts_def)
qed

lemma generateMany_fresh:
  assumes "enableNonce (config c)" and "distinct ns" and "set ns \<inter> set (usedNonces c) = {}"
  shows "fst (generateMany (map (\<lambda>n i. n) ns) c) = map (\<lambda>n. Inr (Some n)) ns"
  using assms
proof (induction ns arbitrary: c)
  case Nil
  then show ?case by simp
next
  case (Cons n ns)
  let ?c1 = "snd (generateNonce (\<lambda>i. n) c)"
  have f: "fst (generateNonce (\<lambda>i. n) c) = Inr (Some n)"
    and s: "set (usedNonces ?c1) \<subseteq> insert n (set (usedNonces c))"
    and e: "config ?c1 = config c"
    using generateNonce_fresh_first [of c n] Cons.prems by auto
  have "fst (generateMany (map (\<lambda>n i. n) ns) ?c1) = map (\<lambda>n. Inr (Some n)) ns"
    using Cons.prems s e by (intro Cons.IH) auto
  then show ?case using f by (simp add: split_def)
qed

text \<open>
  C6. With nonces enabled, \<open>generateNonce\<close> throws exactly when the first nine
  candidates are all in the Nonce Set: the loop leaves with \<open>attempts = 10\<close> after
  drawing the tenth candidate, and the test \<open>attempts >= maxAttempts\<close> then throws
  whether or not that candidate collides.
\<close>

theorem generateNonce_exhausted_after_nine:
  assumes "enableNonce (config c)"
  shows "(fst (generateNonce cand c) = Inl NonceExhausted)
       = (\<forall>j<9. cand j \<in> set (usedNonces c))"
  using assms by (rule generateNonce_exhausted_iff)

theorem generateNonce_exhausted_after_nine_witness:
  "enableNonce (config ((initial 0 :: jsobj client)\<lparr>usedNonces := map dec [0..<9]\<rparr>))
   \<and> dec 9 \<notin> set (usedNonces ((initial 0 :: jsobj client)\<lparr>usedNonces := map dec [0..<9]\<rparr>))
   \<and> fst (generateNonce dec ((initial 0 :: jsobj client)\<lparr>usedNonces := map dec [0..<9]\<rparr>))
       = Inl NonceExhausted"
proof -
  let ?c = "(initial 0 :: jsobj client)\<lparr>usedNonces := map dec [0..<9]\<rparr>"
  have en: "enableNonce (config ?c)"
    by (simp add: initial_def)
  have fresh: "dec 9 \<notin> set (usedNonces ?c)"
  proof
    assume "dec 9 \<in> set (usedNonces ?c)"
    then obtain x where x: "x < 9" "dec 9 = dec x" by auto
    then have "9 = x" using dec_inject by blast
    then show False using x by simp
  qed
  have "\<forall>j<9. dec j \<in> set (usedNonces ?c)"
    by simp
  then have "fst (generateNonce dec ?c) = Inl NonceExhausted"
    using generateNonce_exhausted_after_nine [OF en, of dec] by simp
  then show ?thesis using en fresh by simp
qed

text \<open>
  C7. The Nonce Set never holds more than 1000 entries when an operation completes:
  \<open>generateNonce\<close> and \<open>clearNonces\<close> keep the bound. After 1001 consecutive successful
  calls of \<open>generateNonce\<close> from the empty set, the set holds exactly 1000 entries, the
  nonces returned by the second to the last call, and the first nonce is no longer a
  member.
\<close>

theorem nonce_set_bounded:
  assumes "usedNonces c = []" and "length cands = 1001"
    and "generateMany cands c = (map (\<lambda>n. Inr (Some n)) ns, c1)"
    and "length (usedNonces c2) \<le> 1000"
  shows "length (usedNonces c1) = 1000
       \<and> hd ns \<notin> set (usedNonces c1)
       \<and> usedNonces c1 = tl ns
       \<and> length (usedNonces (snd (generateNonce cand c2))) \<le> 1000
       \<and> length (usedNonces (clearNonces c2)) \<le> 1000"
proof -
  have len: "length ns = 1001"
    using generateMany_length [OF assms(3)] assms(2) by simp
  have inv: "usedNonces c1 = drop (length ([] @ ns) - 1000) ([] @ ns)
       \<and> distinct (usedNonces c1)
       \<and> (length ([] @ ns) \<le> 1001 \<longrightarrow> distinct ([] @ ns))"
    by (rule generateMany_invariant [of c "[]" cands ns c1]) (simp_all add: assms(1) assms(3))
  then have u: "usedNonces c1 = drop 1 ns" and d: "distinct ns"
    using len by simp_all
  obtain x xs where ns: "ns = x # xs" using len by (cases ns) auto
  show ?thesis
    using u d ns len generateNonce_bounded [OF assms(4)] by (simp add: clearNonces_def)
qed

theorem nonce_set_bounded_witness:
  "usedNonces (initial 0 :: jsobj client) = []
   \<and> length (map (\<lambda>n i. n) (map dec [0..<1001])) = 1001
   \<and> fst (generateMany (map (\<lambda>n i. n) (map dec [0..<1001])) (initial 0 :: jsobj client))
       = map (\<lambda>n. Inr (Some n)) (map dec [0..<1001])
   \<and> length (usedNonces (snd (generateMany (map (\<lambda>n i. n) (map dec [0..<1001]))
        (initial 0 :: jsobj client)))) = 1000
   \<and> dec 0 \<notin> set (usedNonces (snd (generateMany (map (\<lambda>n i. n) (map dec [0..<1001]))
        (initial 0 :: jsobj client))))"
proof -
  let ?c = "initial 0 :: jsobj client"
  let ?ns = "map dec [0..<1001]"
  let ?cands = "map (\<lambda>n i. n) ?ns"
  have e: "usedNonces ?c = []" and en: "enableNonce (config ?c)"
    by (simp_all add: initial_def)
  have l: "length ?cands = 1001" by simp
  have "inj_on dec (set [0..<1001])"
    by (rule inj_onI) (rule dec_inject)
  then have d: "distinct ?ns"
    by (simp add: distinct_map)
  have f: "fst (generateMany ?cands ?c) = map (\<lambda>n. Inr (Some n)) ?ns"
    using generateMany_fresh [OF en d] e by simp
  then have g: "generateMany ?cands ?c = (map (\<lambda>n. Inr (Some n)) ?ns, snd (generateMany ?cands ?c))"
    by (metis prod.collapse)
  have b: "length (usedNonces ?c) \<le> 1000" using e by simp
  have h: "hd ?ns = dec 0"
    by (simp add: hd_map)
  note r = nonce_set_bounded [OF e l g b]
  have r1: "length (usedNonces (snd (generateMany ?cands ?c))) = 1000"
    using r by blast
  have "hd ?ns \<notin> set (usedNonces (snd (generateMany ?cands ?c)))"
    using r by blast
  then have r2: "dec 0 \<notin> set (usedNonces (snd (generateMany ?cands ?c)))"
    unfolding h .
  from e l f r1 r2 show ?thesis by blast
qed

section \<open>Properties of the CSRF token manager\<close>



lemma mintCSRF_present: "present (Some (mintCSRF t r))"
  by (simp add: present_def mintCSRF_def)







section \<open>Properties of the webhook verification\<close>

declare compareLoop.simps [simp del]

lemma word_xor_zero_iff: "((a :: 32 word) XOR b = 0) = (a = b)"
proof
  assume "a XOR b = 0"
  then have "a XOR (a XOR b) = a XOR 0" by simp
  then show "a = b" by (simp add: bit.xor_left_self)
next
  assume "a = b"
  then show "a XOR b = 0" by simp
qed

lemma charCode_inject:
  "((of_nat (of_char a) :: 32 word) = of_nat (of_char b)) = (a = b)"
proof -
  have small: "\<And>ch. of_char ch < (2::nat) ^ 32"
    by (rule less_trans [OF nat_of_char_less_256]) simp
  have "of_char a < (2::nat) ^ 32" "of_char b < (2::nat) ^ 32"
    by (rule small)+
  then have "take_bit 32 (of_char a :: nat) = of_char a" "take_bit 32 (of_char b :: nat) = of_char b"
    by (simp_all add: take_bit_nat_eq_self)
  then show ?thesis
    by (simp add: word_of_nat_eq_iff)
qed

lemma compareLoop_zero_iff:
  assumes "length sg = length ex" and "i \<le> length sg"
  shows "(compareLoop sg ex i r = 0) = (r = 0 \<and> drop i sg = drop i ex)"
  using assms
proof (induction sg ex i r rule: compareLoop.induct)
  case (1 sg ex i r)
  show ?case
  proof (cases "i < length sg")
    case True
    let ?x = "charCodeAt sg i XOR charCodeAt ex i"
    have ih: "(compareLoop sg ex (i + 1) (r OR ?x) = 0)
            = (r OR ?x = 0 \<and> drop (i + 1) sg = drop (i + 1) ex)"
      using "1.IH" [OF True] "1.prems" True by simp
    have x: "(?x = 0) = (sg ! i = ex ! i)"
      using True "1.prems" by (simp add: charCodeAt_def word_xor_zero_iff charCode_inject)
    have d: "drop i sg = sg ! i # drop (i + 1) sg" "drop i ex = ex ! i # drop (i + 1) ex"
      using True "1.prems" by (simp_all add: Cons_nth_drop_Suc)
    have "compareLoop sg ex i r = compareLoop sg ex (i + 1) (r OR ?x)"
      using True by (simp add: compareLoop.simps [of sg ex i r])
    then show ?thesis
      using ih x d by (auto simp: or_eq_0_iff)
  next
    case False
    then have "compareLoop sg ex i r = r"
      by (simp add: compareLoop.simps [of sg ex i r])
    then show ?thesis using False "1.prems" by simp
  qed
qed

text \<open>
  C10. \<open>verifyWebhookSignature\<close> returns \<open>false\<close> when the payload, the signature or
  the secret is missing or empty; otherwise it returns \<open>true\<close> exactly when the
  signature is equal to the hex HMAC-SHA256 digest of the payload under the secret. It
  is total: an exception of the digest computation is answered with \<open>false\<close>.
\<close>

theorem verifyWebhookSignature_spec:
  "verifyWebhookSignature cj payload signature secret =
     (\<exists>p sg k h. payload = Some p \<and> signature = Some sg \<and> secret = Some k \<and> cj = Some h
        \<and> p \<noteq> [] \<and> sg \<noteq> [] \<and> k \<noteq> [] \<and> sg = h p k)"
proof (cases "\<exists>p sg k h. payload = Some p \<and> signature = Some sg \<and> secret = Some k \<and> cj = Some h
        \<and> p \<noteq> [] \<and> sg \<noteq> [] \<and> k \<noteq> []")
  case True
  then obtain p sg k h where v: "payload = Some p" "signature = Some sg" "secret = Some k"
    "cj = Some h" "p \<noteq> []" "sg \<noteq> []" "k \<noteq> []" by blast
  have "verifyWebhookSignature cj payload signature secret = (sg = h p k)"
    using v compareLoop_zero_iff [of sg "h p k" 0 0]
    by (auto simp: verifyWebhookSignature_def computeHMAC_def)
  then show ?thesis using v by auto
next
  case False
  then have "\<not> verifyWebhookSignature cj payload signature secret"
    by (auto simp: verifyWebhookSignature_def computeHMAC_def split: option.splits)
  then show ?thesis using False by blast
qed

theorem verifyWebhookSignature_spec_witness:
  "verifyWebhookSignature (Some (\<lambda>m k. k @ m)) (Some ''body'') (Some ''keybody'') (Some ''key'')
   \<and> \<not> verifyWebhookSignature (Some (\<lambda>m k. k @ m)) (Some ''body'') (Some ''keybodz'') (Some ''key'')
   \<and> \<not> verifyWebhookSignature (Some (\<lambda>m k. k @ m)) (Some ''body'') (Some ''keybody'') (Some [])
   \<and> \<not> verifyWebhookSignature (Some (\<lambda>m k. k @ m)) None (Some ''keybody'') (Some ''key'')
   \<and> \<not> verifyWebhookSignature None (Some ''body'') (Some ''keybody'') (Some ''key'')"
  using verifyWebhookSignature_spec [of "Some (\<lambda>m k. k @ m)" "Some ''body''" "Some ''keybody''" "Some ''key''"]
    verifyWebhookSignature_spec [of "Some (\<lambda>m k. k @ m)" "Some ''body''" "Some ''keybodz''" "Some ''key''"]
    verifyWebhookSignature_spec [of "Some (\<lambda>m k. k @ m)" "Some ''body''" "Some ''keybody''" "Some []"]
    verifyWebhookSignature_spec [of "Some (\<lambda>m k. k @ m)" None "Some ''keybody''" "Some ''key''"]
    verifyWebhookSignature_spec [of None "Some ''body''" "Some ''keybody''" "Some ''key''"]
  by simp

section \<open>Properties of the canonical string\<close>

lemma getProp_member:
  assumes "wf_obj p" and "(k, v) \<in> set p"
  shows "getProp p k = v \<and> k \<in> set (sortedKeys p)"
proof -
  have "map_of p k = Some v"
    using assms by (simp add: wf_obj_def keys_def)
  moreover have "k \<in> set (keys p)"
    using assms(2) by (force simp: keys_def)
  ultimately show ?thesis
    by (simp add: getProp_def sortedKeys_def)
qed

text \<open>
  C9 (amended). For a parameter object and each of its properties whose value is inside
  the model: the canonical string of \<open>createSignature\<close> (clients v1.0.0 and v3.8.1) has
  the part \<open>key=String(value)\<close>, so that \<open>null\<close> gives \<open>key=null\<close>; the canonical
  string of \<open>generateSignature\<close> (client v1.3.0) has the part \<open>key=\<close> when the value
  is \<open>null\<close>, \<open>undefined\<close> or the empty string, and the part \<open>key=String(value)\<close>
  when the value is truthy. Both strings join one part per property with \<open>&\<close>.
\<close>

theorem canonical_string_values:
  assumes wf: "wf_obj p" and mem: "(k, v) \<in> set p" and "inModel v"
  shows "k @ ''='' @ ToString v \<in> set (createParts p)
       \<and> (v = JNull \<longrightarrow> k @ ''=null'' \<in> set (createParts p))
       \<and> (v = JUndefined \<longrightarrow> k @ ''=undefined'' \<in> set (createParts p))
       \<and> (v = JNull \<or> v = JUndefined \<or> v = JStr [] \<longrightarrow> k @ ''='' \<in> set (generateParts p))
       \<and> (truthy v \<longrightarrow> k @ ''='' @ ToString v \<in> set (generateParts p))
       \<and> createSignatureString p = join ''&'' (createParts p)
       \<and> generateSignatureString p = join ''&'' (generateParts p)
       \<and> length (createParts p) = length p
       \<and> length (generateParts p) = length p"
proof -
  have g: "getProp p k = v" and s: "k \<in> set (sortedKeys p)"
    using getProp_member [OF wf mem] by simp_all
  have c: "k @ ''='' @ ToString v \<in> set (createParts p)"
    unfolding createParts_def using g s by force
  have gen: "k @ ''='' @ ToString (orEmpty v) \<in> set (generateParts p)"
    unfolding generateParts_def using g s by force
  have falsy: "v = JNull \<or> v = JUndefined \<or> v = JStr [] \<longrightarrow> k @ ''='' \<in> set (generateParts p)"
    using gen by (auto simp: orEmpty_def)
  have tr: "truthy v \<longrightarrow> k @ ''='' @ ToString v \<in> set (generateParts p)"
    using gen by (auto simp: orEmpty_def)
  have l: "length (createParts p) = length p" "length (generateParts p) = length p"
    by (simp_all add: createParts_def generateParts_def sortedKeys_def keys_def)
  show ?thesis
    using c falsy tr l
    by (auto simp: createSignatureString_def generateSignatureString_def)
qed

theorem canonical_string_values_witness:
  "wf_obj [(''b'', JNull), (''a'', JNum 7), (''c'', JStr ''x'')]
   \<and> (''b'', JNull) \<in> set [(''b'', JNull), (''a'', JNum 7), (''c'', JStr ''x'')]
   \<and> inModel JNull
   \<and> ''b=null'' \<in> set (createParts [(''b'', JNull), (''a'', JNum 7), (''c'', JStr ''x'')])
   \<and> ''b='' \<in> set (generateParts [(''b'', JNull), (''a'', JNum 7), (''c'', JStr ''x'')])
   \<and> createSignatureString [(''b'', JNull), (''a'', JNum 7), (''c'', JStr ''x'')] = ''a=7&b=null&c=x''
   \<and> generateSignatureString [(''b'', JNull), (''a'', JNum 7), (''c'', JStr ''x'')] = ''a=7&b=&c=x''"
proof -
  let ?p = "[(''b'', JNull), (''a'', JNum 7), (''c'', JStr ''x'')]"
  have wf: "wf_obj ?p" by (simp add: wf_obj_def keys_def)
  have mem: "(''b'', JNull) \<in> set ?p" by simp
  have im: "inModel JNull" by (simp add: inModel_def)
  have c: "createSignatureString ?p = ''a=7&b=null&c=x''" by code_simp
  have g: "generateSignatureString ?p = ''a=7&b=&c=x''" by code_simp
  show ?thesis
    using canonical_string_values [OF wf mem im] wf mem im c g by simp
qed

text \<open>
  A \<open>null\<close> value is signed as \<open>a=null\<close> by \<open>createSignature\<close>, and the number 0 as
  \<open>n=\<close> by \<open>generateSignature\<close>.
\<close>

theorem canonical_string_counterexample:
  "createSignatureString [(''a'', JNull)] = ''a=null''
   \<and> createSignatureString [(''a'', JNull)] \<noteq> ''a=''
   \<and> createSignature (Some (\<lambda>message secret. message)) [(''a'', JNull)] ''s'' = Inr ''a=null''
   \<and> generateSignatureString [(''n'', JNum 0)] = ''n=''
   \<and> ToString (JNum 0) = ''0''"
  by (simp add: createSignatureString_def createParts_def generateSignatureString_def
      generateParts_def sortedKeys_def keys_def getProp_def orEmpty_def createSignature_def
      computeHMAC_def dec.simps digit_def char_of_eq_iff)

end
